theory Spec2Isabelle
  imports Main
begin

section \<open>The publish-log panel of foodtruck.js\<close>

text \<open>
  The script \<^verbatim>\<open>foodtruck/assets/js/foodtruck.js\<close> wires a notification panel
  (\<^verbatim>\<open>#ft-publog\<close>) to a server-sent event stream. Its handlers run to completion on
  the browser's event loop and communicate through the page: the attribute
  \<^verbatim>\<open>data-autohide\<close> of the panel, the panel's display state, the child elements of
  \<^verbatim>\<open>#ft-publog-container\<close>, and the callbacks that \<^verbatim>\<open>window.setTimeout\<close> and
  jQuery's \<^verbatim>\<open>fadeOut(400, removeMsgEl)\<close> have scheduled and not yet run.

  The page is a record, every handler is a function from page to page, and the event
  loop is a function \<open>step\<close> that dispatches one event. Delays are kept as data on the
  scheduled callbacks; the order in which pending callbacks and outside events are
  dispatched is left open, so a statement about every event sequence covers every
  timing. A fade of the panel is recorded as the call that was issued, and the panel's
  display state is the state in which that fade ends.
\<close>

subsection \<open>The page\<close>

text \<open>
  A message element is identified by the number of the \<open>onPublishEvent\<close> call that
  created it and carries its markup. A scheduled callback is one of the two closures of
  \<open>onPublishEvent\<close>: the function handed to \<^verbatim>\<open>window.setTimeout\<close>, or \<open>removeMsgEl\<close>
  as the completion callback of the message's fade.
\<close>

type_synonym msg = "nat \<times> string"

datatype callback = Timeout nat | FadeDone nat

datatype fx = FadeIn nat | FadeOut nat

datatype source_state = NoSource | Open | Closed

record page =
  autohide :: "string option"
  visible :: bool
  panel_fx :: "fx list"
  children :: "msg list"
  pending :: "(callback \<times> nat) list"
  next_id :: nat
  source :: source_state
  console :: "string list"

fun cb_id :: "callback \<Rightarrow> nat" where
  "cb_id (Timeout i) = i"
| "cb_id (FadeDone i) = i"

definition cbs :: "page \<Rightarrow> callback list" where
  "cbs s = map fst (pending s)"

text \<open>
  Modelled from the spec: the page's markup and style sheet are not part of the script,
  so the state at page load follows the spec's state machine. The panel starts Hidden,
  holds no notification and has no \<^verbatim>\<open>data-autohide\<close> attribute. The stream is opened
  only where the browser has \<^verbatim>\<open>window.EventSource\<close>.
\<close>

definition ready :: "bool \<Rightarrow> page" where
  "ready has_event_source =
     \<lparr>autohide = None, visible = False, panel_fx = [], children = [], pending = [],
      next_id = 0,
      source = (if has_event_source then Open else NoSource),
      console = []\<rparr>"

subsection \<open>jQuery effects on the panel\<close>

definition fadeIn :: "nat \<Rightarrow> page \<Rightarrow> page" where
  "fadeIn d s = s\<lparr>visible := True, panel_fx := panel_fx s @ [FadeIn d]\<rparr>"

definition fadeOut :: "nat \<Rightarrow> page \<Rightarrow> page" where
  "fadeOut d s = s\<lparr>visible := False, panel_fx := panel_fx s @ [FadeOut d]\<rparr>"

subsection \<open>The handlers\<close>

text \<open>\<^verbatim>\<open>publogEl.mouseenter(function() { publogEl.attr('data-autohide', 'false'); })\<close>\<close>

definition publog_mouseenter :: "page \<Rightarrow> page" where
  "publog_mouseenter s = s\<lparr>autohide := Some ''false''\<rparr>"

text \<open>\<^verbatim>\<open>publogEl.on('hide', function() { containerEl.empty(); })\<close>\<close>

definition publog_hide :: "page \<Rightarrow> page" where
  "publog_hide s = s\<lparr>children := []\<rparr>"

text \<open>\<^verbatim>\<open>closePublogBtn.on('click', function() { publogEl.fadeOut(200); })\<close>\<close>

definition closePublogBtn_click :: "page \<Rightarrow> page" where
  "closePublogBtn_click s = fadeOut 200 s"

text \<open>
  \<open>removeMsgEl\<close> of message \<open>i\<close>: \<^verbatim>\<open>msgEl.remove()\<close> detaches the element (nothing
  happens when it is no longer in the container), then the panel is faded out when the
  container has no child left.
\<close>

definition removeMsgEl :: "nat \<Rightarrow> page \<Rightarrow> page" where
  "removeMsgEl i s =
     (let s1 = s\<lparr>children := filter (\<lambda>m. fst m \<noteq> i) (children s)\<rparr>
      in if length (children s1) = 0 then fadeOut 200 s1 else s1)"

text \<open>
  The function handed to \<^verbatim>\<open>window.setTimeout(..., 4000)\<close> by the call that created
  message \<open>i\<close>: it reads the attribute once and, when it is the string \<^verbatim>\<open>'true'\<close>,
  starts \<^verbatim>\<open>msgEl.fadeOut(400, removeMsgEl)\<close>.
\<close>

definition timeout_callback :: "nat \<Rightarrow> page \<Rightarrow> page" where
  "timeout_callback i s =
     (if autohide s = Some ''true''
      then s\<lparr>pending := pending s @ [(FadeDone i, 400)]\<rparr>
      else s)"

definition onPublishEvent :: "string \<Rightarrow> page \<Rightarrow> page" where
  "onPublishEvent e_data s =
     (let i = next_id s;
          msgEl = (i, ''<div>'' @ e_data @ ''</div>'');
          s1 = s\<lparr>next_id := Suc i, pending := pending s @ [(Timeout i, 4000)]\<rparr>;
          s2 = (if length (children s1) = 0
                then fadeIn 200 (s1\<lparr>autohide := Some ''true''\<rparr>)
                else s1)
      in s2\<lparr>children := children s2 @ [msgEl]\<rparr>)"

text \<open>
  \<^verbatim>\<open>source.onerror = function(e) { console.log("Error with SSE, closing.", e); source.close(); }\<close>
\<close>

definition onerror :: "page \<Rightarrow> page" where
  "onerror s = s\<lparr>console := console s @ [''Error with SSE, closing.''], source := Closed\<rparr>"

subsection \<open>The event loop\<close>

datatype event =
    Message string
  | MouseEnter
  | HideEvent
  | CloseClick
  | TransportError
  | Fire callback

fun dequeue :: "callback \<Rightarrow> (callback \<times> nat) list \<Rightarrow> (callback \<times> nat) list" where
  "dequeue cb [] = []"
| "dequeue cb (p # ps) = (if fst p = cb then ps else p # dequeue cb ps)"

fun run_callback :: "callback \<Rightarrow> page \<Rightarrow> page" where
  "run_callback (Timeout i) s = timeout_callback i s"
| "run_callback (FadeDone i) s = removeMsgEl i s"

text \<open>
  An event source delivers \<^verbatim>\<open>message\<close> and \<^verbatim>\<open>error\<close> events only while it is
  open. A scheduled callback runs once: it leaves the pending list when it runs, and
  one that is not pending cannot run.
\<close>

fun step :: "event \<Rightarrow> page \<Rightarrow> page" where
  "step (Message e_data) s = (if source s = Open then onPublishEvent e_data s else s)"
| "step MouseEnter s = publog_mouseenter s"
| "step HideEvent s = publog_hide s"
| "step CloseClick s = closePublogBtn_click s"
| "step TransportError s = (if source s = Open then onerror s else s)"
| "step (Fire cb) s =
     (if cb \<in> set (cbs s)
      then run_callback cb (s\<lparr>pending := dequeue cb (pending s)\<rparr>)
      else s)"

fun run :: "event list \<Rightarrow> page \<Rightarrow> page" where
  "run [] s = s"
| "run (ev # evs) s = run evs (step ev s)"

fun is_message :: "event \<Rightarrow> bool" where
  "is_message (Message e_data) = True"
| "is_message ev = False"

text \<open>
  Two predicates on the pending callbacks. \<open>timers_ok\<close>: at most one callback is pending
  per message, and only for messages that exist. \<open>quiet i\<close>: message \<open>i\<close> exists and no
  callback is pending for it.
\<close>

definition timers_ok :: "page \<Rightarrow> bool" where
  "timers_ok s =
     (distinct (map (cb_id \<circ> fst) (pending s)) \<and>
      (\<forall>p\<in>set (pending s). cb_id (fst p) < next_id s))"

definition quiet :: "nat \<Rightarrow> page \<Rightarrow> bool" where
  "quiet i s = (i < next_id s \<and> i \<notin> set (map (cb_id \<circ> fst) (pending s)))"

section \<open>Properties\<close>

lemmas handler_defs =
  onPublishEvent_def publog_mouseenter_def publog_hide_def closePublogBtn_click_def
  removeMsgEl_def timeout_callback_def onerror_def fadeIn_def fadeOut_def cbs_def

subsection \<open>Who writes the autohide attribute\<close>

lemma run_callback_autohide: "autohide (run_callback cb s) = autohide s"
  by (cases cb) (simp_all add: handler_defs Let_def)

lemma step_autohide:
  "autohide (step ev s) =
     (case ev of
        MouseEnter \<Rightarrow> Some ''false''
      | Message e_data \<Rightarrow>
          if source s = Open \<and> children s = [] then Some ''true'' else autohide s
      | _ \<Rightarrow> autohide s)"
  by (cases ev) (simp_all add: handler_defs Let_def run_callback_autohide)

lemma run_no_message_autohide_false:
  "\<forall>ev\<in>set evs. \<not> is_message ev \<Longrightarrow> autohide s = Some ''false'' \<Longrightarrow>
   autohide (run evs s) = Some ''false''"
proof (induction evs arbitrary: s)
  case Nil
  then show ?case by simp
next
  case (Cons ev evs)
  from Cons.prems have "autohide (step ev s) = Some ''false''"
    by (cases ev) (simp_all add: step_autohide del: step.simps)
  with Cons show ?case by simp
qed

subsection \<open>Arrival of a message\<close>

text \<open>
  C1. A call of \<open>onPublishEvent\<close> sets the autohide attribute to \<^verbatim>\<open>'true'\<close> only when
  the container held no notification when the message arrived. A call that arrives
  while the container is not empty leaves the attribute as it was; in particular it is
  still \<^verbatim>\<open>'false'\<close> when the pointer has entered the panel just before.
\<close>

theorem onPublishEvent_autohide_only_when_empty:
  "(children s = [] \<longrightarrow> autohide (onPublishEvent e_data s) = Some ''true'') \<and>
   (children s \<noteq> [] \<longrightarrow> autohide (onPublishEvent e_data s) = autohide s) \<and>
   (children s \<noteq> [] \<longrightarrow>
      autohide (onPublishEvent e_data (publog_mouseenter s)) = Some ''false'')"
  by (simp add: handler_defs Let_def)

theorem onPublishEvent_autohide_only_when_empty_witness:
  "children (onPublishEvent ''A'' (ready True)) \<noteq> [] \<and>
   autohide (onPublishEvent ''A'' (ready True)) = Some ''true'' \<and>
   autohide (onPublishEvent ''B'' (publog_mouseenter (onPublishEvent ''A'' (ready True))))
     = Some ''false''"
  using onPublishEvent_autohide_only_when_empty [of "ready True" "''A''"]
    onPublishEvent_autohide_only_when_empty [of "onPublishEvent ''A'' (ready True)" "''B''"]
  by (simp add: handler_defs ready_def Let_def)

text \<open>
  C2, as the claim has it: once the pointer has entered the panel, the next message sets
  the attribute back to \<^verbatim>\<open>'true'\<close> however many notifications are pending. The
  script does not: message A arrives, the pointer enters, message B arrives while A is
  still in the container, and the attribute is still \<^verbatim>\<open>'false'\<close>.
\<close>

theorem mouseenter_then_message_counterexample:
  "autohide (onPublishEvent ''B'' (publog_mouseenter (onPublishEvent ''A'' (ready True))))
     \<noteq> Some ''true''"
  by (simp add: handler_defs ready_def Let_def)

text \<open>
  C2, amended: after the pointer has entered the panel, and whatever callbacks, clicks
  and hide events are dispatched before the next message, that message sets the
  attribute back to \<^verbatim>\<open>'true'\<close> exactly when the container holds no notification
  as it arrives; otherwise the attribute stays \<^verbatim>\<open>'false'\<close>.
\<close>

theorem next_message_after_mouseenter:
  assumes "\<forall>ev\<in>set evs. \<not> is_message ev"
  shows "autohide (onPublishEvent e_data (run evs (publog_mouseenter s))) =
           (if children (run evs (publog_mouseenter s)) = []
            then Some ''true'' else Some ''false'')"
proof -
  have "autohide (run evs (publog_mouseenter s)) = Some ''false''"
    using assms by (rule run_no_message_autohide_false) (simp add: publog_mouseenter_def)
  then show ?thesis
    by (simp add: onPublishEvent_def fadeIn_def Let_def)
qed

theorem next_message_after_mouseenter_witness:
  "autohide (onPublishEvent ''B''
      (run [Fire (Timeout 0)] (publog_mouseenter (onPublishEvent ''A'' (ready True)))))
     = Some ''false'' \<and>
   autohide (onPublishEvent ''B''
      (run [HideEvent] (publog_mouseenter (onPublishEvent ''A'' (ready True)))))
     = Some ''true''"
  using next_message_after_mouseenter
      [of "[Fire (Timeout 0)]" "''B''" "onPublishEvent ''A'' (ready True)"]
    next_message_after_mouseenter
      [of "[HideEvent]" "''B''" "onPublishEvent ''A'' (ready True)"]
  by (simp add: handler_defs ready_def Let_def)

text \<open>
  C10. The autohide attribute is written by two operations only: the pointer-enter
  handler sets it to \<^verbatim>\<open>'false'\<close>, and \<open>onPublishEvent\<close> sets it to \<^verbatim>\<open>'true'\<close>
  when the container is empty. The timeout callback, \<open>removeMsgEl\<close>, the close
  button, the hide handler and the error handler leave it as it is, and so does every
  event other than a pointer-enter and a message.
\<close>

theorem autohide_writers:
  "autohide (publog_mouseenter s) = Some ''false'' \<and>
   autohide (onPublishEvent e_data s) =
     (if children s = [] then Some ''true'' else autohide s) \<and>
   autohide (timeout_callback i s) = autohide s \<and>
   autohide (removeMsgEl i s) = autohide s \<and>
   autohide (closePublogBtn_click s) = autohide s \<and>
   autohide (publog_hide s) = autohide s \<and>
   autohide (onerror s) = autohide s \<and>
   (\<forall>ev. ev \<noteq> MouseEnter \<and> \<not> is_message ev \<longrightarrow> autohide (step ev s) = autohide s)"
proof -
  have "autohide (step ev s) = autohide s" if "ev \<noteq> MouseEnter" "\<not> is_message ev" for ev
    using that by (cases ev) (simp_all add: step_autohide del: step.simps)
  then show ?thesis
    by (simp add: handler_defs Let_def)
qed

theorem autohide_writers_witness:
  "autohide (step (Fire (FadeDone 0)) (step (Fire (Timeout 0))
      (step (Message ''A'') (ready True)))) = Some ''true'' \<and>
   autohide (step HideEvent (step CloseClick (step MouseEnter
      (step (Message ''A'') (ready True))))) = Some ''false''"
  using autohide_writers [of "ready True" "''A''" 0]
    autohide_writers [of "step (Message ''A'') (ready True)" "''A''" 0]
    autohide_writers [of "step (Fire (Timeout 0)) (step (Message ''A'') (ready True))" "''A''" 0]
    autohide_writers [of "step MouseEnter (step (Message ''A'') (ready True))" "''A''" 0]
    autohide_writers [of "step CloseClick (step MouseEnter (step (Message ''A'') (ready True)))" "''A''" 0]
  by (simp add: handler_defs ready_def Let_def)


subsection \<open>Visibility of the panel and its content\<close>

lemma run_callback_visible: "visible (run_callback cb s) \<longrightarrow> visible s"
  by (cases cb) (simp_all add: handler_defs Let_def)

lemma step_Fire_visible: "visible (step (Fire cb) s) \<longrightarrow> visible s"
  using run_callback_visible [of cb "s\<lparr>pending := dequeue cb (pending s)\<rparr>"] by simp

lemma run_callback_visible_nonempty:
  "visible s \<longrightarrow> children s \<noteq> [] \<Longrightarrow>
   visible (run_callback cb s) \<longrightarrow> children (run_callback cb s) \<noteq> []"
  by (cases cb) (simp_all add: handler_defs Let_def)

lemma step_visible_nonempty:
  assumes "ev \<noteq> HideEvent" and "visible s \<longrightarrow> children s \<noteq> []"
  shows "visible (step ev s) \<longrightarrow> children (step ev s) \<noteq> []"
proof (cases ev)
  case (Fire cb)
  show ?thesis
    using assms(2) run_callback_visible_nonempty [of "s\<lparr>pending := dequeue cb (pending s)\<rparr>" cb]
    by (simp add: Fire)
qed (use assms in \<open>simp_all add: handler_defs Let_def\<close>)

lemma visible_panel_holds_notification:
  assumes "HideEvent \<notin> set evs" and "visible s \<longrightarrow> children s \<noteq> []"
  shows "visible (run evs s) \<longrightarrow> children (run evs s) \<noteq> []"
  using assms
proof (induction evs arbitrary: s)
  case Nil
  then show ?case by simp
next
  case (Cons ev evs)
  from Cons.prems have "visible (step ev s) \<longrightarrow> children (step ev s) \<noteq> []"
    by (intro step_visible_nonempty) auto
  with Cons show ?case by simp
qed

text \<open>
  Every path of the script but one keeps the panel visible exactly while its container
  holds a notification: the first message shows it, the removal of the last message
  hides it. Without a click on the close button (and without a hide event of the
  panel) the equivalence is an invariant of every event sequence.
\<close>

lemma run_callback_visible_iff_nonempty:
  "visible s \<longleftrightarrow> children s \<noteq> [] \<Longrightarrow>
   visible (run_callback cb s) \<longleftrightarrow> children (run_callback cb s) \<noteq> []"
  by (cases cb) (auto simp: handler_defs Let_def)

lemma step_visible_iff_nonempty:
  assumes "ev \<noteq> CloseClick" and "ev \<noteq> HideEvent"
    and "visible s \<longleftrightarrow> children s \<noteq> []"
  shows "visible (step ev s) \<longleftrightarrow> children (step ev s) \<noteq> []"
proof (cases ev)
  case (Fire cb)
  show ?thesis
    using assms(3)
      run_callback_visible_iff_nonempty [of "s\<lparr>pending := dequeue cb (pending s)\<rparr>" cb]
    by (simp add: Fire)
qed (use assms in \<open>simp_all add: handler_defs Let_def\<close>)

lemma visible_iff_nonempty_without_close:
  assumes "CloseClick \<notin> set evs" and "HideEvent \<notin> set evs"
    and "visible s \<longleftrightarrow> children s \<noteq> []"
  shows "visible (run evs s) \<longleftrightarrow> children (run evs s) \<noteq> []"
  using assms
proof (induction evs arbitrary: s)
  case Nil
  then show ?case by simp
next
  case (Cons ev evs)
  from Cons.prems have "visible (step ev s) \<longleftrightarrow> children (step ev s) \<noteq> []"
    by (intro step_visible_iff_nonempty) auto
  with Cons.IH [of "step ev s"] Cons.prems show ?case by simp
qed

text \<open>
  C3. The claim: in every state reached by messages, timer firings, pointer-enters and
  clicks on the close button, the panel is visible if and only if its container holds
  a notification. The close button breaks it. Its handler fades the panel out and
  leaves the container alone; the handler that empties the container is bound to a
  \<^verbatim>\<open>hide\<close> event of the panel, which the fade does not raise and nothing in the
  script triggers. After message A and a click the panel is hidden and A is still in
  the container. After A, a pointer-enter, a click and messages B and C the panel is
  hidden with three notifications and the autohide attribute \<^verbatim>\<open>'false'\<close>: the
  messages found the container non-empty, so none of them showed the panel again.
\<close>

theorem close_click_breaks_visible_iff_nonempty:
  "\<not> (visible (run [Message ''A'', CloseClick] (ready True)) \<longleftrightarrow>
      children (run [Message ''A'', CloseClick] (ready True)) \<noteq> []) \<and>
   \<not> visible (run [Message ''A'', CloseClick] (ready True)) \<and>
   children (run [Message ''A'', CloseClick] (ready True)) = [(0, ''<div>A</div>'')] \<and>
   \<not> visible
      (run [Message ''A'', MouseEnter, CloseClick, Message ''B'', Message ''C''] (ready True)) \<and>
   children
      (run [Message ''A'', MouseEnter, CloseClick, Message ''B'', Message ''C''] (ready True))
     = [(0, ''<div>A</div>''), (1, ''<div>B</div>''), (2, ''<div>C</div>'')] \<and>
   autohide
      (run [Message ''A'', MouseEnter, CloseClick, Message ''B'', Message ''C''] (ready True))
     = Some ''false''"
  by (simp add: handler_defs ready_def Let_def)

lemma fold_onPublishEvent_nonempty:
  "children s \<noteq> [] \<Longrightarrow>
   children (fold onPublishEvent es s) \<noteq> [] \<and>
   visible (fold onPublishEvent es s) = visible s \<and>
   autohide (fold onPublishEvent es s) = autohide s \<and>
   panel_fx (fold onPublishEvent es s) = panel_fx s"
proof (induction es arbitrary: s)
  case Nil
  then show ?case by simp
next
  case (Cons e es)
  have "children (onPublishEvent e s) \<noteq> []"
    by (simp add: handler_defs Let_def)
  from Cons.IH [OF this] Cons.prems show ?case
    by (simp add: handler_defs Let_def)
qed

text \<open>
  C4. For a sequence of \<open>onPublishEvent\<close> calls that starts on an empty container, the
  first call fades the panel in (200 ms), which leaves it visible whatever it was
  before, and sets the autohide attribute to \<^verbatim>\<open>'true'\<close>; the calls after it change
  neither.
\<close>

theorem first_message_shows_panel:
  assumes "children s = []"
  shows "visible (onPublishEvent e_data s) \<and>
     autohide (onPublishEvent e_data s) = Some ''true'' \<and>
     panel_fx (onPublishEvent e_data s) = panel_fx s @ [FadeIn 200] \<and>
     visible (fold onPublishEvent es (onPublishEvent e_data s)) \<and>
     autohide (fold onPublishEvent es (onPublishEvent e_data s)) = Some ''true'' \<and>
     panel_fx (fold onPublishEvent es (onPublishEvent e_data s)) = panel_fx s @ [FadeIn 200]"
proof -
  have first: "visible (onPublishEvent e_data s) \<and>
     autohide (onPublishEvent e_data s) = Some ''true'' \<and>
     panel_fx (onPublishEvent e_data s) = panel_fx s @ [FadeIn 200]"
    using assms by (simp add: handler_defs Let_def)
  have "children (onPublishEvent e_data s) \<noteq> []"
    by (simp add: handler_defs Let_def)
  from fold_onPublishEvent_nonempty [OF this, of es] first show ?thesis
    by simp
qed

theorem first_message_shows_panel_witness:
  "\<not> visible (ready True) \<and>
   visible (onPublishEvent ''A'' (ready True)) \<and>
   autohide (fold onPublishEvent [''B'', ''C''] (onPublishEvent ''A'' (ready True)))
     = Some ''true''"
  using first_message_shows_panel [of "ready True" "''A''" "[''B'', ''C'']"]
  by (simp add: ready_def)

subsection \<open>Pending callbacks\<close>

lemma dequeue_subset: "set (dequeue cb ps) \<subseteq> set ps"
  by (induction ps) auto

lemma dequeue_distinct:
  "distinct (map (cb_id \<circ> fst) ps) \<Longrightarrow> distinct (map (cb_id \<circ> fst) (dequeue cb ps))"
proof (induction ps)
  case Nil
  then show ?case by simp
next
  case (Cons p ps)
  with dequeue_subset [of cb ps] show ?case by auto
qed

lemma dequeue_id_gone:
  "distinct (map (cb_id \<circ> fst) ps) \<Longrightarrow> cb \<in> fst ` set ps \<Longrightarrow>
   cb_id cb \<notin> set (map (cb_id \<circ> fst) (dequeue cb ps))"
proof (induction ps)
  case Nil
  then show ?case by simp
next
  case (Cons p ps)
  show ?case
  proof (cases "fst p = cb")
    case True
    with Cons.prems show ?thesis by auto
  next
    case False
    with Cons.prems(2) obtain q where q: "q \<in> set ps" "fst q = cb" by auto
    from Cons.prems(1) have "(cb_id \<circ> fst) p \<notin> (cb_id \<circ> fst) ` set ps" by simp
    with q have ne: "cb_id (fst p) \<noteq> cb_id cb" by force
    from q have "cb \<in> fst ` set ps" by force
    with Cons.IH Cons.prems(1) have "cb_id cb \<notin> set (map (cb_id \<circ> fst) (dequeue cb ps))"
      by simp
    with ne show ?thesis using False by auto
  qed
qed

lemma timers_ok_ready: "timers_ok (ready b)"
  by (simp add: timers_ok_def ready_def)

lemma timers_ok_onPublishEvent: "timers_ok s \<Longrightarrow> timers_ok (onPublishEvent e_data s)"
  by (fastforce simp: timers_ok_def handler_defs Let_def)

lemma timers_ok_Fire:
  assumes "timers_ok s" and "cb \<in> set (cbs s)"
  shows "timers_ok (run_callback cb (s\<lparr>pending := dequeue cb (pending s)\<rparr>))"
proof -
  from assms(2) have mem: "cb \<in> fst ` set (pending s)"
    by (simp add: cbs_def)
  from assms(1) have d: "distinct (map (cb_id \<circ> fst) (dequeue cb (pending s)))"
    by (simp add: timers_ok_def dequeue_distinct)
  from assms(1) mem have g: "cb_id cb \<notin> set (map (cb_id \<circ> fst) (dequeue cb (pending s)))"
    using dequeue_id_gone [of "pending s" cb] by (simp add: timers_ok_def)
  from assms(1) have b: "\<forall>p\<in>set (dequeue cb (pending s)). cb_id (fst p) < next_id s"
    using dequeue_subset [of cb "pending s"] by (auto simp: timers_ok_def)
  from assms(1) mem have c: "cb_id cb < next_id s"
    by (force simp: timers_ok_def)
  show ?thesis
  proof (cases cb)
    case (Timeout i)
    with d g b c show ?thesis
      by (auto simp: timers_ok_def handler_defs)
  next
    case (FadeDone i)
    with d b show ?thesis
      by (auto simp: timers_ok_def handler_defs Let_def)
  qed
qed

lemma timers_ok_step: "timers_ok s \<Longrightarrow> timers_ok (step ev s)"
proof (cases ev)
  case (Message e_data)
  assume "timers_ok s"
  then show ?thesis by (simp add: Message timers_ok_onPublishEvent)
next
  case (Fire cb)
  assume "timers_ok s"
  then show ?thesis by (simp add: Fire timers_ok_Fire)
qed (simp_all add: timers_ok_def handler_defs)

lemma timers_ok_run: "timers_ok s \<Longrightarrow> timers_ok (run evs s)"
  by (induction evs arbitrary: s) (simp_all add: timers_ok_step)

lemma quiet_not_pending: "quiet i s \<Longrightarrow> cb \<in> set (cbs s) \<Longrightarrow> cb_id cb \<noteq> i"
  by (auto simp: quiet_def cbs_def)

lemma quiet_Fire:
  assumes "quiet i s" and "cb \<in> set (cbs s)"
  shows "quiet i (run_callback cb (s\<lparr>pending := dequeue cb (pending s)\<rparr>))"
proof -
  from assms have ne: "cb_id cb \<noteq> i" by (rule quiet_not_pending)
  from assms(1) have q: "i < next_id s" "i \<notin> set (map (cb_id \<circ> fst) (dequeue cb (pending s)))"
    using dequeue_subset [of cb "pending s"] by (auto simp: quiet_def)
  show ?thesis
  proof (cases cb)
    case (Timeout j)
    with ne q show ?thesis by (auto simp: quiet_def handler_defs)
  next
    case (FadeDone j)
    with q show ?thesis by (auto simp: quiet_def handler_defs Let_def)
  qed
qed

lemma quiet_step: "quiet i s \<Longrightarrow> quiet i (step ev s)"
proof (cases ev)
  case (Message e_data)
  assume "quiet i s"
  then show ?thesis by (auto simp: Message quiet_def handler_defs Let_def)
next
  case (Fire cb)
  assume "quiet i s"
  then show ?thesis by (simp add: Fire quiet_Fire)
qed (simp_all add: quiet_def handler_defs)

lemma quiet_run: "quiet i s \<Longrightarrow> quiet i (run evs s)"
  by (induction evs arbitrary: s) (simp_all add: quiet_step)

lemma children_removeMsgEl:
  "children (removeMsgEl i s) = filter (\<lambda>m. fst m \<noteq> i) (children s)"
  by (simp add: removeMsgEl_def fadeOut_def Let_def)

lemma quiet_step_keeps:
  assumes "quiet i s" and "ev \<noteq> HideEvent" and "m \<in> set (children s)" and "fst m = i"
  shows "m \<in> set (children (step ev s))"
proof (cases ev)
  case (Fire cb)
  show ?thesis
  proof (cases "cb \<in> set (cbs s)")
    case True
    with assms(1) have ne: "cb_id cb \<noteq> i" by (rule quiet_not_pending)
    from True have "step ev s = run_callback cb (s\<lparr>pending := dequeue cb (pending s)\<rparr>)"
      by (simp add: Fire)
    with ne assms(3,4) show ?thesis
      by (cases cb) (auto simp: children_removeMsgEl timeout_callback_def)
  next
    case False
    with assms(3) show ?thesis by (simp add: Fire)
  qed
qed (use assms in \<open>auto simp: handler_defs Let_def\<close>)

lemma quiet_run_keeps:
  "quiet i s \<Longrightarrow> HideEvent \<notin> set evs \<Longrightarrow> m \<in> set (children s) \<Longrightarrow> fst m = i \<Longrightarrow>
   m \<in> set (children (run evs s))"
proof (induction evs arbitrary: s)
  case Nil
  then show ?case by simp
next
  case (Cons ev evs)
  from Cons.prems have "quiet i (step ev s)" and "m \<in> set (children (step ev s))"
    by (auto intro: quiet_step quiet_step_keeps)
  with Cons show ?case by simp
qed

lemma timeout_leaves_quiet:
  assumes "timers_ok s" and "Timeout i \<in> set (cbs s)" and "autohide s \<noteq> Some ''true''"
  shows "quiet i (step (Fire (Timeout i)) s)"
proof -
  from assms(1,2) have "i \<notin> set (map (cb_id \<circ> fst) (dequeue (Timeout i) (pending s)))"
    using dequeue_id_gone [of "pending s" "Timeout i"] by (simp add: timers_ok_def cbs_def)
  moreover from assms(1,2) have "i < next_id s"
    by (force simp: timers_ok_def cbs_def)
  ultimately show ?thesis
    using assms(2,3) by (simp add: quiet_def handler_defs)
qed

text \<open>
  C6. When the 4000 ms timer of a notification fires while the autohide attribute is not
  \<^verbatim>\<open>'true'\<close>, in a state reached from page load, the firing only takes the timer off
  the pending list: nothing is scheduled. From then on no callback of that notification
  is ever pending again, so its check has run exactly once, and its element stays in
  the container through every later sequence of events without a hide event of the
  panel, the only handler that empties the container (a click on the close button
  alone hides the panel and keeps the element).
\<close>

theorem timeout_without_autohide_keeps_element:
  assumes "s = run evs0 (ready b)"
    and "Timeout i \<in> set (cbs s)"
    and "autohide s \<noteq> Some ''true''"
  shows "step (Fire (Timeout i)) s = s\<lparr>pending := dequeue (Timeout i) (pending s)\<rparr> \<and>
     (\<forall>evs. Timeout i \<notin> set (cbs (run evs (step (Fire (Timeout i)) s))) \<and>
            FadeDone i \<notin> set (cbs (run evs (step (Fire (Timeout i)) s)))) \<and>
     (\<forall>evs m. HideEvent \<notin> set evs \<and> m \<in> set (children s) \<and> fst m = i \<longrightarrow>
            m \<in> set (children (run evs (step (Fire (Timeout i)) s))))"
proof -
  let ?s' = "step (Fire (Timeout i)) s"
  have ok: "timers_ok s"
    unfolding assms(1) by (rule timers_ok_run) (rule timers_ok_ready)
  from ok assms(2,3) have q: "quiet i ?s'" by (rule timeout_leaves_quiet)
  have eq: "?s' = s\<lparr>pending := dequeue (Timeout i) (pending s)\<rparr>"
    using assms(2,3) by (simp add: handler_defs)
  have gone: "Timeout i \<notin> set (cbs (run evs ?s')) \<and> FadeDone i \<notin> set (cbs (run evs ?s'))" for evs
    using quiet_run [OF q, of evs] quiet_not_pending [of i "run evs ?s'"] by fastforce
  have kept: "m \<in> set (children (run evs ?s'))"
    if "HideEvent \<notin> set evs" "m \<in> set (children s)" "fst m = i" for evs m
  proof -
    from that(2) eq have "m \<in> set (children ?s')" by simp
    with q that(1,3) show ?thesis by (intro quiet_run_keeps)
  qed
  from eq gone kept show ?thesis by blast
qed

theorem timeout_without_autohide_keeps_element_witness:
  "(0, ''<div>A</div>'') \<in> set (children
      (run [Fire (Timeout 0), CloseClick, Message ''B'', Fire (Timeout 1), Fire (Timeout 0)]
         (run [Message ''A'', MouseEnter] (ready True))))"
proof -
  let ?s = "run [Message ''A'', MouseEnter] (ready True)"
  have b: "Timeout 0 \<in> set (cbs ?s)"
    by (simp add: handler_defs ready_def Let_def)
  have c: "autohide ?s \<noteq> Some ''true''"
    by (simp add: handler_defs ready_def Let_def)
  have m: "(0, ''<div>A</div>'') \<in> set (children ?s)"
    by (simp add: handler_defs ready_def Let_def)
  have h: "HideEvent \<notin> set [CloseClick, Message ''B'', Fire (Timeout 1), Fire (Timeout 0)]"
    by simp
  from timeout_without_autohide_keeps_element [OF refl b c]
  have "(0, ''<div>A</div>'') \<in> set (children
      (run [CloseClick, Message ''B'', Fire (Timeout 1), Fire (Timeout 0)]
         (step (Fire (Timeout 0)) ?s)))"
    using m h by (metis fst_conv)
  then show ?thesis by simp
qed


subsection \<open>The timer fires while autohide is on\<close>

text \<open>
  A scheduled callback stays on the pending list, with its delay, until it is the one
  that runs: no handler cancels a timer or a fade, and running another callback takes
  only that one off the list.
\<close>

lemma dequeue_keeps: "p \<in> set ps \<Longrightarrow> fst p \<noteq> cb \<Longrightarrow> p \<in> set (dequeue cb ps)"
  by (induction ps) auto

lemma run_callback_keeps_pending:
  "p \<in> set (pending s) \<Longrightarrow> p \<in> set (pending (run_callback cb s))"
  by (cases cb) (simp_all add: handler_defs Let_def)

lemma step_keeps_pending:
  assumes "p \<in> set (pending s)" and "ev \<noteq> Fire (fst p)"
  shows "p \<in> set (pending (step ev s))"
proof (cases ev)
  case (Fire cb)
  with assms(2) have "fst p \<noteq> cb" by auto
  with assms(1) have "p \<in> set (pending (s\<lparr>pending := dequeue cb (pending s)\<rparr>))"
    by (simp add: dequeue_keeps)
  then have "p \<in> set (pending (run_callback cb (s\<lparr>pending := dequeue cb (pending s)\<rparr>)))"
    by (rule run_callback_keeps_pending)
  with assms(1) show ?thesis by (simp add: Fire)
qed (use assms(1) in \<open>simp_all add: handler_defs Let_def\<close>)

lemma run_keeps_pending:
  "p \<in> set (pending s) \<Longrightarrow> Fire (fst p) \<notin> set evs \<Longrightarrow> p \<in> set (pending (run evs s))"
proof (induction evs arbitrary: s)
  case Nil
  then show ?case by simp
next
  case (Cons ev evs)
  from Cons.prems have "p \<in> set (pending (step ev s))"
    by (intro step_keeps_pending) auto
  with Cons show ?case by simp
qed

lemma step_FadeDone:
  assumes "FadeDone i \<in> set (cbs s)"
  shows "children (step (Fire (FadeDone i)) s) = filter (\<lambda>m. fst m \<noteq> i) (children s) \<and>
     (filter (\<lambda>m. fst m \<noteq> i) (children s) = [] \<longrightarrow>
        \<not> visible (step (Fire (FadeDone i)) s) \<and>
        panel_fx (step (Fire (FadeDone i)) s) = panel_fx s @ [FadeOut 200])"
  using assms by (simp add: removeMsgEl_def fadeOut_def Let_def)

text \<open>
  C5. Every notification gets a 4000 ms timer on arrival, and the timer stays pending
  until it fires. When it fires while the autohide attribute is \<^verbatim>\<open>'true'\<close>, the
  element stays in the container and its removal is scheduled as the completion of a
  400 ms fade. That completion stays pending through whatever events come before it
  (further messages, other timers and fades, pointer-enters, clicks, hide events).
  When it runs, at once or after such events, the element is out of the container,
  and if the container is then empty the panel is faded out (200 ms) and ends hidden.
\<close>

theorem timeout_with_autohide_removes:
  assumes "(Timeout i, 4000) \<in> set (pending s)" and "autohide s = Some ''true''"
  shows "children (step (Fire (Timeout i)) s) = children s \<and>
     visible (step (Fire (Timeout i)) s) = visible s \<and>
     (FadeDone i, 400) \<in> set (pending (step (Fire (Timeout i)) s)) \<and>
     children (step (Fire (FadeDone i)) (step (Fire (Timeout i)) s))
       = filter (\<lambda>m. fst m \<noteq> i) (children s) \<and>
     (filter (\<lambda>m. fst m \<noteq> i) (children s) = [] \<longrightarrow>
        \<not> visible (step (Fire (FadeDone i)) (step (Fire (Timeout i)) s)) \<and>
        panel_fx (step (Fire (FadeDone i)) (step (Fire (Timeout i)) s))
          = panel_fx s @ [FadeOut 200]) \<and>
     (\<forall>s'. FadeDone i \<in> set (cbs s') \<longrightarrow>
        children (step (Fire (FadeDone i)) s') = filter (\<lambda>m. fst m \<noteq> i) (children s') \<and>
        (filter (\<lambda>m. fst m \<noteq> i) (children s') = [] \<longrightarrow>
           \<not> visible (step (Fire (FadeDone i)) s') \<and>
           panel_fx (step (Fire (FadeDone i)) s') = panel_fx s' @ [FadeOut 200])) \<and>
     (\<forall>evs. Fire (FadeDone i) \<notin> set evs \<longrightarrow>
        (let s2 = run evs (step (Fire (Timeout i)) s); s3 = step (Fire (FadeDone i)) s2
         in (FadeDone i, 400) \<in> set (pending s2) \<and>
            children s3 = filter (\<lambda>m. fst m \<noteq> i) (children s2) \<and>
            (\<forall>m\<in>set (children s3). fst m \<noteq> i) \<and>
            (children s3 = [] \<longrightarrow>
               \<not> visible s3 \<and> panel_fx s3 = panel_fx s2 @ [FadeOut 200]))) \<and>
     (\<forall>e_data s0 evs. Fire (Timeout (next_id s0)) \<notin> set evs \<longrightarrow>
        (Timeout (next_id s0), 4000) \<in> set (pending (run evs (onPublishEvent e_data s0))))"
proof -
  from assms(1) have "Timeout i \<in> set (cbs s)"
    by (force simp: cbs_def)
  then have now: "children (step (Fire (Timeout i)) s) = children s \<and>
     visible (step (Fire (Timeout i)) s) = visible s \<and>
     (FadeDone i, 400) \<in> set (pending (step (Fire (Timeout i)) s)) \<and>
     panel_fx (step (Fire (Timeout i)) s) = panel_fx s \<and>
     FadeDone i \<in> set (cbs (step (Fire (Timeout i)) s))"
    using assms(2) by (simp add: handler_defs)
  have later: "children (step (Fire (FadeDone i)) s') = filter (\<lambda>m. fst m \<noteq> i) (children s') \<and>
        (filter (\<lambda>m. fst m \<noteq> i) (children s') = [] \<longrightarrow>
           \<not> visible (step (Fire (FadeDone i)) s') \<and>
           panel_fx (step (Fire (FadeDone i)) s') = panel_fx s' @ [FadeOut 200])"
    if "FadeDone i \<in> set (cbs s')" for s'
    using that by (rule step_FadeDone)
  have through: "let s2 = run evs (step (Fire (Timeout i)) s); s3 = step (Fire (FadeDone i)) s2
         in (FadeDone i, 400) \<in> set (pending s2) \<and>
            children s3 = filter (\<lambda>m. fst m \<noteq> i) (children s2) \<and>
            (\<forall>m\<in>set (children s3). fst m \<noteq> i) \<and>
            (children s3 = [] \<longrightarrow>
               \<not> visible s3 \<and> panel_fx s3 = panel_fx s2 @ [FadeOut 200])"
    if "Fire (FadeDone i) \<notin> set evs" for evs
  proof -
    let ?s2 = "run evs (step (Fire (Timeout i)) s)"
    from now that have p: "(FadeDone i, 400) \<in> set (pending ?s2)"
      by (intro run_keeps_pending) simp_all
    from p have "fst (FadeDone i, 400::nat) \<in> fst ` set (pending ?s2)"
      by (rule imageI)
    then have "FadeDone i \<in> set (cbs ?s2)"
      by (simp add: cbs_def)
    from later [OF this] p show ?thesis
      by (simp add: Let_def)
  qed
  have arrival: "(Timeout (next_id s0), 4000) \<in> set (pending (run evs (onPublishEvent e_data s0)))"
    if "Fire (Timeout (next_id s0)) \<notin> set evs" for e_data s0 evs
    using that by (intro run_keeps_pending) (simp_all add: handler_defs Let_def)
  from now later [of "step (Fire (Timeout i)) s"] have first:
    "children (step (Fire (Timeout i)) s) = children s \<and>
     visible (step (Fire (Timeout i)) s) = visible s \<and>
     (FadeDone i, 400) \<in> set (pending (step (Fire (Timeout i)) s)) \<and>
     children (step (Fire (FadeDone i)) (step (Fire (Timeout i)) s))
       = filter (\<lambda>m. fst m \<noteq> i) (children s) \<and>
     (filter (\<lambda>m. fst m \<noteq> i) (children s) = [] \<longrightarrow>
        \<not> visible (step (Fire (FadeDone i)) (step (Fire (Timeout i)) s)) \<and>
        panel_fx (step (Fire (FadeDone i)) (step (Fire (Timeout i)) s))
          = panel_fx s @ [FadeOut 200])"
    by simp
  from first later through arrival show ?thesis
    by blast
qed

theorem timeout_with_autohide_removes_witness:
  "children (run [Message ''A'', Fire (Timeout 0)] (ready True)) = [(0, ''<div>A</div>'')] \<and>
   children (run [Message ''A'', Fire (Timeout 0), Fire (FadeDone 0)] (ready True)) = [] \<and>
   \<not> visible (run [Message ''A'', Fire (Timeout 0), Fire (FadeDone 0)] (ready True)) \<and>
   (FadeDone 0, 400) \<in> set (pending
      (run [Message ''A'', Fire (Timeout 0), Message ''B'', MouseEnter] (ready True))) \<and>
   children (run [Message ''A'', Fire (Timeout 0), Message ''B'', MouseEnter, Fire (FadeDone 0)]
      (ready True)) = [(1, ''<div>B</div>'')] \<and>
   visible (run [Message ''A'', Fire (Timeout 0), Message ''B'', MouseEnter, Fire (FadeDone 0)]
      (ready True))"
proof -
  let ?s = "run [Message ''A''] (ready True)"
  have p: "(Timeout 0, 4000) \<in> set (pending ?s)"
    by (simp add: handler_defs ready_def Let_def)
  have a: "autohide ?s = Some ''true''"
    by (simp add: handler_defs ready_def Let_def)
  have c: "children ?s = [(0, ''<div>A</div>'')]"
    by (simp add: handler_defs ready_def Let_def)
  have n: "Fire (FadeDone 0) \<notin> set [Message ''B'', MouseEnter]"
    by simp
  have v: "visible (run [Message ''A'', Fire (Timeout 0), Message ''B'', MouseEnter,
      Fire (FadeDone 0)] (ready True))"
    by (simp add: handler_defs ready_def Let_def)
  have b: "children (run [Message ''A'', Fire (Timeout 0), Message ''B'', MouseEnter] (ready True))
      = [(0, ''<div>A</div>''), (1, ''<div>B</div>'')]"
    by (simp add: handler_defs ready_def Let_def)
  note inst = timeout_with_autohide_removes [OF p a]
  from inst have "\<forall>evs. Fire (FadeDone 0) \<notin> set evs \<longrightarrow>
        (let s2 = run evs (step (Fire (Timeout 0)) ?s); s3 = step (Fire (FadeDone 0)) s2
         in (FadeDone 0, 400) \<in> set (pending s2) \<and>
            children s3 = filter (\<lambda>m. fst m \<noteq> 0) (children s2) \<and>
            (\<forall>m\<in>set (children s3). fst m \<noteq> 0) \<and>
            (children s3 = [] \<longrightarrow>
               \<not> visible s3 \<and> panel_fx s3 = panel_fx s2 @ [FadeOut 200]))"
    by blast
  from this [THEN spec, of "[Message ''B'', MouseEnter]", THEN mp, OF n]
  have later: "(FadeDone 0, 400) \<in> set (pending
        (run [Message ''A'', Fire (Timeout 0), Message ''B'', MouseEnter] (ready True))) \<and>
      children (run [Message ''A'', Fire (Timeout 0), Message ''B'', MouseEnter,
        Fire (FadeDone 0)] (ready True))
      = filter (\<lambda>m. fst m \<noteq> 0)
          (children (run [Message ''A'', Fire (Timeout 0), Message ''B'', MouseEnter]
             (ready True)))"
    by (simp only: Let_def run.simps)
  from inst c have first:
    "children (run [Message ''A'', Fire (Timeout 0)] (ready True)) = [(0, ''<div>A</div>'')] \<and>
     children (run [Message ''A'', Fire (Timeout 0), Fire (FadeDone 0)] (ready True)) = [] \<and>
     \<not> visible (run [Message ''A'', Fire (Timeout 0), Fire (FadeDone 0)] (ready True))"
    by simp
  from first later b v show ?thesis
    by simp
qed

subsection \<open>The close button\<close>

text \<open>
  C7. The click handler of the close button fades the panel out over 200 ms and leaves
  it hidden, in every state: whatever the container holds, whatever callbacks are
  pending and whatever the autohide attribute is, none of which it touches.
\<close>

theorem close_click_hides_panel:
  "step CloseClick s = closePublogBtn_click s \<and>
   \<not> visible (closePublogBtn_click s) \<and>
   panel_fx (closePublogBtn_click s) = panel_fx s @ [FadeOut 200] \<and>
   children (closePublogBtn_click s) = children s \<and>
   pending (closePublogBtn_click s) = pending s \<and>
   autohide (closePublogBtn_click s) = autohide s"
  by (simp add: closePublogBtn_click_def fadeOut_def)

theorem close_click_hides_panel_witness:
  "visible (run [Message ''A'', Message ''B'', MouseEnter] (ready True)) \<and>
   \<not> visible (run [Message ''A'', Message ''B'', MouseEnter, CloseClick] (ready True)) \<and>
   length (children (run [Message ''A'', Message ''B'', MouseEnter, CloseClick] (ready True)))
     = 2"
  using close_click_hides_panel [of "run [Message ''A'', Message ''B'', MouseEnter] (ready True)"]
  by (simp add: handler_defs ready_def Let_def)

text \<open>
  C8. A message arrives on an empty container and the close button is clicked before
  the message's timer fires. The timer is then still pending, and when it fires, and
  when the fade it starts completes, the panel stays hidden. In every state, a
  callback that runs leaves a hidden panel hidden: the only effect a callback has on
  the panel is a fade-out. The callbacks are total functions of the page, as the
  handlers they model have no failing operation.
\<close>

theorem stale_timer_never_reopens:
  "(visible (step (Fire cb) s) \<longrightarrow> visible s) \<and>
   (\<not> visible s \<longrightarrow> \<not> visible (run (map Fire cbl) s)) \<and>
   (children s = [] \<longrightarrow>
      Timeout (next_id s) \<in> set (cbs (closePublogBtn_click (onPublishEvent e_data s))) \<and>
      \<not> visible (closePublogBtn_click (onPublishEvent e_data s)) \<and>
      \<not> visible (step (Fire (Timeout (next_id s)))
                    (closePublogBtn_click (onPublishEvent e_data s))) \<and>
      \<not> visible (step (Fire (FadeDone (next_id s)))
                    (step (Fire (Timeout (next_id s)))
                       (closePublogBtn_click (onPublishEvent e_data s)))))"
proof -
  have all: "\<not> visible s' \<Longrightarrow> \<not> visible (run (map Fire cbl') s')" for cbl' s'
  proof (induction cbl' arbitrary: s')
    case Nil
    then show ?case by simp
  next
    case (Cons c cbl')
    from Cons.prems step_Fire_visible [of c s'] have "\<not> visible (step (Fire c) s')"
      by blast
    then have "\<not> visible (run (map Fire cbl') (step (Fire c) s'))"
      by (rule Cons.IH)
    then show ?case by simp
  qed
  let ?s2 = "closePublogBtn_click (onPublishEvent e_data s)"
  have hidden: "\<not> visible ?s2"
    by (simp add: closePublogBtn_click_def fadeOut_def)
  have pend: "Timeout (next_id s) \<in> set (cbs ?s2)"
    by (simp add: handler_defs Let_def)
  from hidden all [of ?s2 "[Timeout (next_id s)]"]
    all [of ?s2 "[Timeout (next_id s), FadeDone (next_id s)]"]
  have "\<not> visible (step (Fire (Timeout (next_id s))) ?s2)"
    and "\<not> visible (step (Fire (FadeDone (next_id s))) (step (Fire (Timeout (next_id s))) ?s2))"
    by simp_all
  with hidden pend all [of s cbl] step_Fire_visible [of cb s] show ?thesis
    by blast
qed

theorem stale_timer_never_reopens_witness:
  "Timeout 0 \<in> set (cbs (run [Message ''X'', CloseClick] (ready True))) \<and>
   \<not> visible (run [Message ''X'', CloseClick, Fire (Timeout 0)] (ready True)) \<and>
   FadeDone 0 \<in> set (cbs (run [Message ''X'', CloseClick, Fire (Timeout 0)] (ready True))) \<and>
   \<not> visible (run [Message ''X'', CloseClick, Fire (Timeout 0), Fire (FadeDone 0)]
                 (ready True))"
  using stale_timer_never_reopens [of "Timeout 0" "ready True" "[]" "''X''"]
  by (simp add: handler_defs ready_def Let_def)

subsection \<open>Transport errors\<close>

lemma run_callback_source:
  "source (run_callback cb s) = source s \<and> console (run_callback cb s) = console s"
  by (cases cb) (simp_all add: handler_defs Let_def)

lemma step_source:
  "source (step ev s) = (if ev = TransportError \<and> source s = Open then Closed else source s)"
  by (cases ev) (simp_all add: handler_defs Let_def run_callback_source)

lemma step_console:
  "ev \<noteq> TransportError \<Longrightarrow> console (step ev s) = console s"
  by (cases ev) (simp_all add: handler_defs Let_def run_callback_source)

lemma run_Closed: "source s = Closed \<Longrightarrow> source (run evs s) = Closed"
  by (induction evs arbitrary: s) (simp_all add: step_source del: step.simps)

text \<open>
  C9. When the event source reports an error, the handler writes the error to the
  console and closes the source in the same call. After that the source stays closed
  through every sequence of events: nothing reopens it, and no further message or error
  reaches a handler. No event other than a transport error writes to the console or
  changes the state of the source, so the program has no other error path.
\<close>

theorem transport_error_closes_for_good:
  "console (onerror s) = console s @ [''Error with SSE, closing.''] \<and>
   source (onerror s) = Closed \<and>
   (source s = Open \<longrightarrow> step TransportError s = onerror s) \<and>
   (\<forall>evs. source (run evs (onerror s)) = Closed) \<and>
   (\<forall>evs e_data. step (Message e_data) (run evs (onerror s)) = run evs (onerror s) \<and>
      step TransportError (run evs (onerror s)) = run evs (onerror s)) \<and>
   (\<forall>ev. ev \<noteq> TransportError \<longrightarrow>
      source (step ev s) = source s \<and> console (step ev s) = console s)"
proof -
  have closed: "source (run evs (onerror s)) = Closed" for evs
    by (rule run_Closed) (simp add: onerror_def)
  have other: "source (step ev s) = source s \<and> console (step ev s) = console s"
    if "ev \<noteq> TransportError" for ev
    using that by (simp add: step_source step_console del: step.simps)
  from closed other show ?thesis
    by (simp add: onerror_def)
qed

theorem transport_error_closes_for_good_witness:
  "source (run [Message ''A'', TransportError, Message ''B'', TransportError] (ready True))
     = Closed \<and>
   console (run [Message ''A'', TransportError, Message ''B'', TransportError] (ready True))
     = [''Error with SSE, closing.''] \<and>
   length (children
     (run [Message ''A'', TransportError, Message ''B'', TransportError] (ready True))) = 1"
  using transport_error_closes_for_good [of "run [Message ''A''] (ready True)"]
  by (simp add: handler_defs ready_def Let_def)

end
